theory Spec2Isabelle
  imports Complex_Main
begin

section \<open>The 2+1D pouch cell script: data and errors\<close>

text \<open>
  The script \<^verbatim>\<open>pouch_cell_model.py\<close> configures a DFN model with a two-dimensional
  current collector, solves it on 120 time samples and plots four fields at the sample
  nearest to a requested time. Floating-point numbers of the script are modelled as
  \<^typ>\<open>real\<close> numbers: rounding, NaN and infinities are not represented. Every
  exception the script can meet is a value of \<open>error\<close>, and a computation that can raise
  returns \<open>error + 'a\<close> with \<open>Inl\<close> for the exception.
\<close>

datatype error =
    ValueError
  | IndexError
  | ZeroDivisionError
  | UnresolvedParameterError
  | CyclicParameterError
  | GeometryError
  | MeshError
  | DiscretisationError
  | SolverDivergenceError
  | ToleranceError
  | OutOfDomainError

subsection \<open>The numpy operations the script calls\<close>

text \<open>
  \<^verbatim>\<open>np.linspace(start, stop, num)\<close> with the default \<^verbatim>\<open>endpoint=True\<close>: the samples are
  \<^verbatim>\<open>arange(0, num) * step + start\<close> with \<^verbatim>\<open>step = (stop - start) / (num - 1)\<close>, and for
  \<^verbatim>\<open>num > 1\<close> the last sample is overwritten with \<^verbatim>\<open>stop\<close>.
\<close>

definition linspace :: "real \<Rightarrow> real \<Rightarrow> nat \<Rightarrow> real list" where
  "linspace start stop num =
     (if num = 0 then []
      else if num = 1 then [start]
      else map (\<lambda>i. real i * ((stop - start) / real (num - 1)) + start) [0..<num - 1] @ [stop])"

text \<open>
  \<^verbatim>\<open>a.argmin()\<close>: the index of the first occurrence of the minimum; an empty array
  raises \<^verbatim>\<open>ValueError\<close>. The scan keeps the index \<open>best\<close> and the value \<open>bv\<close> of the
  smallest entry seen so far and replaces them only by a strictly smaller entry.
\<close>

fun argmin_from :: "real list \<Rightarrow> nat \<Rightarrow> nat \<Rightarrow> real \<Rightarrow> nat" where
  "argmin_from [] i best bv = best"
| "argmin_from (x # xs) i best bv =
     (if x < bv then argmin_from xs (Suc i) i x else argmin_from xs (Suc i) best bv)"

definition argmin :: "real list \<Rightarrow> error + nat" where
  "argmin a = (case a of [] \<Rightarrow> Inl ValueError | x # xs \<Rightarrow> Inr (argmin_from xs 1 0 x))"

text \<open>\<^verbatim>\<open>a[i]\<close> for an index \<open>i \<ge> 0\<close>, and \<^verbatim>\<open>a[-1]\<close>; both raise \<^verbatim>\<open>IndexError\<close> out of range.\<close>

definition getitem :: "'a list \<Rightarrow> nat \<Rightarrow> error + 'a" where
  "getitem a i = (if i < length a then Inr (a ! i) else Inl IndexError)"

definition getitem_last :: "'a list \<Rightarrow> error + 'a" where
  "getitem_last a = (if a = [] then Inl IndexError else Inr (last a))"

subsection \<open>The query grids and the plot function\<close>

text \<open>
  A processed variable is called as \<^verbatim>\<open>v(y=..., z=..., t=...)\<close> with two coordinate arrays
  and a time and returns a two-dimensional array, or raises. The class is not part of the
  script; here such a variable is any function of this type.
\<close>

type_synonym field = "real list \<Rightarrow> real list \<Rightarrow> real \<Rightarrow> error + real list list"

text \<open>
  The module-level names \<^verbatim>\<open>plot\<close> reads. The script's \<^verbatim>\<open>I\<close> and \<^verbatim>\<open>T\<close> are
  \<open>I_var\<close> and \<open>T_var\<close> here, \<^verbatim>\<open>solution.t\<close> is \<open>solution_t\<close>.
\<close>

record globals =
  solution_t :: "real list"
  phi_s_cn :: field
  phi_s_cp :: field
  I_var :: field
  T_var :: field
  l_y :: real
  l_z :: real
  y_plot :: "real list"
  z_plot :: "real list"

text \<open>
  Lines 77 to 80: \<^verbatim>\<open>l_y = phi_s_cp.y_sol[-1]\<close>, \<^verbatim>\<open>l_z = phi_s_cp.z_sol[-1]\<close>,
  \<^verbatim>\<open>y_plot = np.linspace(0, l_y, 21)\<close>, \<^verbatim>\<open>z_plot = np.linspace(0, l_z, 21)\<close>. The arrays
  \<open>y_sol\<close> and \<open>z_sol\<close> are the node coordinates the processed variable holds.
\<close>

definition query_grids :: "real list \<Rightarrow> real list \<Rightarrow> error + (real \<times> real \<times> real list \<times> real list)" where
  "query_grids y_sol z_sol =
     (case getitem_last y_sol of
        Inl e \<Rightarrow> Inl e
      | Inr ly \<Rightarrow>
          (case getitem_last z_sol of
             Inl e \<Rightarrow> Inl e
           | Inr lz \<Rightarrow> Inr (ly, lz, linspace 0 ly 21, linspace 0 lz 21)))"

text \<open>
  The four field evaluations of \<^verbatim>\<open>plot\<close> at one time \<open>s\<close>, in the order of the script;
  each result is transposed before it is handed to \<^verbatim>\<open>pcolormesh\<close>. The first call that
  raises ends the function.
\<close>

definition snapshot :: "globals \<Rightarrow> real \<Rightarrow> error + real list list list" where
  "snapshot g s =
     (case phi_s_cn g (y_plot g) (z_plot g) s of
        Inl e \<Rightarrow> Inl e
      | Inr a \<Rightarrow>
          (case phi_s_cp g (y_plot g) (z_plot g) s of
             Inl e \<Rightarrow> Inl e
           | Inr b \<Rightarrow>
               (case I_var g (y_plot g) (z_plot g) s of
                  Inl e \<Rightarrow> Inl e
                | Inr c \<Rightarrow>
                    (case T_var g (y_plot g) (z_plot g) s of
                       Inl e \<Rightarrow> Inl e
                     | Inr d \<Rightarrow> Inr [transpose a, transpose b, transpose c, transpose d]))))"

text \<open>
  \<^verbatim>\<open>plot(t)\<close>: \<^verbatim>\<open>ind = (np.abs(solution.t - t)).argmin()\<close>, then the four fields at
  \<^verbatim>\<open>solution.t[ind]\<close>. The result is the list of the four arrays that are drawn.
\<close>

definition plot :: "globals \<Rightarrow> real \<Rightarrow> error + real list list list" where
  "plot g t =
     (case argmin (map (\<lambda>s. \<bar>s - t\<bar>) (solution_t g)) of
        Inl e \<Rightarrow> Inl e
      | Inr ind \<Rightarrow>
          (case getitem (solution_t g) ind of
             Inl e \<Rightarrow> Inl e
           | Inr s \<Rightarrow> snapshot g s))"

subsection \<open>Solving: lines 43 to 50\<close>

text \<open>
  Modelled from the spec: the solver object \<^verbatim>\<open>pybamm.CasadiSolver\<close> is not among the
  sources. It carries the three tolerances of the spec (absolute, relative, root) and the
  mode selector.
\<close>

record solver =
  atol :: real
  rtol :: real
  root_tol :: real
  mode :: string

text \<open>
  Modelled from the spec: the discretised model is not among the sources. It is a state
  vector and operators over it; here the initial state vector and the implicit step of the
  solver on it, from one time to the next, which gives no state when it does not converge
  within its iteration budget.
\<close>

record discretised_model =
  initial_state :: "real list"
  implicit_step :: "solver \<Rightarrow> real \<Rightarrow> real \<Rightarrow> real list \<Rightarrow> real list option"

text \<open>
  Modelled from the spec: the Solution is not among the sources. It is the sequence of time
  samples (\<^verbatim>\<open>solution.t\<close>) paired with the state vector at each sample (\<^verbatim>\<open>solution.y\<close>).
\<close>

record solution =
  sol_t :: "real list"
  sol_y :: "real list list"

text \<open>
  Modelled from the spec: the time loop of \<^verbatim>\<open>solve\<close> is not among the sources. From the
  current time \<open>tc\<close> and state \<open>yc\<close> it takes one implicit step to each requested time in
  turn and records the time and the state of every accepted step; the first step that
  does not converge ends the solve with \<^verbatim>\<open>SolverDivergenceError\<close>.
\<close>

fun integrate :: "(real \<Rightarrow> real \<Rightarrow> real list \<Rightarrow> real list option) \<Rightarrow> real \<Rightarrow> real list \<Rightarrow> real list
    \<Rightarrow> error + (real list \<times> real list list)" where
  "integrate step tc yc [] = Inr ([], [])"
| "integrate step tc yc (tn # ts) =
     (case step tc tn yc of
        None \<Rightarrow> Inl SolverDivergenceError
      | Some yn \<Rightarrow>
          (case integrate step tn yn ts of
             Inl e \<Rightarrow> Inl e
           | Inr (ts', ys') \<Rightarrow> Inr (tn # ts', yn # ys')))"

text \<open>
  Modelled from the spec: \<^verbatim>\<open>solver.solve(model, t_eval)\<close> is not among the sources. It fails
  with \<^verbatim>\<open>ToleranceError\<close> when a tolerance is not positive; otherwise the first requested
  time carries the initial state and the time loop produces the other samples. The mode
  selector does not change which times are returned.
\<close>

definition solve :: "solver \<Rightarrow> discretised_model \<Rightarrow> real list \<Rightarrow> error + solution" where
  "solve s m t_eval =
     (if atol s \<le> 0 \<or> rtol s \<le> 0 \<or> root_tol s \<le> 0 then Inl ToleranceError
      else (case t_eval of
              [] \<Rightarrow> Inr \<lparr>sol_t = [], sol_y = []\<rparr>
            | t0 # ts \<Rightarrow>
                (case integrate (implicit_step m s) t0 (initial_state m) ts of
                   Inl e \<Rightarrow> Inl e
                 | Inr (ts', ys') \<Rightarrow> Inr \<lparr>sol_t = t0 # ts', sol_y = initial_state m # ys'\<rparr>)))"

text \<open>
  Line 49: \<^verbatim>\<open>pybamm.CasadiSolver(atol=1e-6, rtol=1e-6, root_tol=1e-3, mode="fast")\<close>.
\<close>

definition script_solver :: solver where
  "script_solver = \<lparr>atol = 1 / 10 ^ 6, rtol = 1 / 10 ^ 6, root_tol = 1 / 10 ^ 3, mode = ''fast''\<rparr>"

text \<open>
  Lines 47 to 50: \<^verbatim>\<open>t_end = 3600 / tau\<close>, \<^verbatim>\<open>t_eval = np.linspace(0, t_end, 120)\<close>,
  \<^verbatim>\<open>solution = solver.solve(model, t_eval)\<close>. The discharge timescale \<open>tau\<close> and the
  discretised model come from the earlier lines of the script and are inputs here. The
  division raises on a zero timescale.
\<close>

definition script_solve :: "discretised_model \<Rightarrow> real \<Rightarrow> error + solution" where
  "script_solve m tau =
     (if tau = 0 then Inl ZeroDivisionError
      else let t_end = 3600 / tau; t_eval = linspace 0 t_end 120
           in solve script_solver m t_eval)"

text \<open>A discretised model whose implicit step always converges (it keeps the state).\<close>

definition steady_model :: discretised_model where
  "steady_model = \<lparr>initial_state = [1, 2], implicit_step = (\<lambda>s a b y. Some y)\<rparr>"

subsection \<open>The parameter store behind \<^verbatim>\<open>param.evaluate\<close>\<close>

text \<open>
  Modelled from the spec: the symbolic expressions of the parameter layer are not among
  the sources. The spec gives them as the variant type
  \<^verbatim>\<open>Literal | NamedRef | BinaryOp(...)\<close>; a binary operation carries its operator on numbers.
\<close>

datatype expr =
    Literal real
  | NamedRef string
  | BinaryOp "real \<Rightarrow> real \<Rightarrow> real" expr expr

text \<open>
  Modelled from the spec: the parameter set is not among the sources. It maps a parameter
  name to a literal value or to an expression over other parameters, here as an
  association list read with \<^const>\<open>map_of\<close>.
\<close>

type_synonym store = "(string \<times> expr) list"

text \<open>
  Modelled from the spec: \<^verbatim>\<open>set(name, value_or_expr)\<close> is not among the sources. It registers
  a value or overrides the one registered before.
\<close>

definition set_param :: "string \<Rightarrow> expr \<Rightarrow> store \<Rightarrow> store" where
  "set_param name v st = (name, v) # st"

text \<open>
  The names an expression mentions.
\<close>

fun names :: "expr \<Rightarrow> string set" where
  "names (Literal v) = {}"
| "names (NamedRef n) = {n}"
| "names (BinaryOp f l r) = names l \<union> names r"

text \<open>
  Modelled from the spec: the check for missing names is not among the sources. The spec
  makes \<^verbatim>\<open>evaluate\<close> fail with \<^verbatim>\<open>UnresolvedParameterError\<close> if any referenced name is
  missing. The check follows every reference from the expression through the definitions
  of the store; \<open>visiting\<close> holds the names on the way from the expression, which are not
  followed again. Each step adds a name of the store to them, so the recursion ends.
\<close>

function has_missing :: "store \<Rightarrow> string list \<Rightarrow> expr \<Rightarrow> bool" where
  "has_missing st visiting (Literal v) = False"
| "has_missing st visiting (NamedRef n) =
     (if n \<in> set visiting then False
      else (case map_of st n of
              None \<Rightarrow> True
            | Some d \<Rightarrow> has_missing st (n # visiting) d))"
| "has_missing st visiting (BinaryOp f l r) =
     (has_missing st visiting l \<or> has_missing st visiting r)"
  by pat_completeness auto
termination
proof (relation "measures [\<lambda>(st, visiting, e). card (fst ` set st - set visiting), \<lambda>(st, visiting, e). size e]")
  fix st :: store and visiting n d
  assume n: "n \<notin> set visiting" and d: "map_of st n = Some d"
  from d have "n \<in> fst ` set st" by (force dest: map_of_SomeD)
  with n have "fst ` set st - set (n # visiting) \<subset> fst ` set st - set visiting" by auto
  then have "card (fst ` set st - set (n # visiting)) < card (fst ` set st - set visiting)"
    by (intro psubset_card_mono) simp_all
  then show "((st, n # visiting, d), (st, visiting, NamedRef n))
      \<in> measures [\<lambda>(st, visiting, e). card (fst ` set st - set visiting), \<lambda>(st, visiting, e). size e]"
    by simp
qed simp_all

text \<open>
  Modelled from the spec: the resolution of an expression is not among the sources. It
  resolves an expression to a number by recursively substituting referenced names;
  \<open>resolving\<close> holds the names whose resolution is in progress. Recursing into a name in
  progress fails with \<^verbatim>\<open>CyclicParameterError\<close>. Each substitution adds a name of the
  store to the names in progress, so the recursion ends.
\<close>

function resolve :: "store \<Rightarrow> string list \<Rightarrow> expr \<Rightarrow> error + real" where
  "resolve st resolving (Literal v) = Inr v"
| "resolve st resolving (NamedRef n) =
     (if n \<in> set resolving then Inl CyclicParameterError
      else (case map_of st n of
              None \<Rightarrow> Inl UnresolvedParameterError
            | Some d \<Rightarrow> resolve st (n # resolving) d))"
| "resolve st resolving (BinaryOp f l r) =
     (case resolve st resolving l of
        Inl err \<Rightarrow> Inl err
      | Inr a \<Rightarrow>
          (case resolve st resolving r of
             Inl err \<Rightarrow> Inl err
           | Inr b \<Rightarrow> Inr (f a b)))"
  by pat_completeness auto
termination
proof (relation "measures [\<lambda>(st, resolving, e). card (fst ` set st - set resolving), \<lambda>(st, resolving, e). size e]")
  fix st :: store and resolving n d
  assume n: "n \<notin> set resolving" and d: "map_of st n = Some d"
  from d have "n \<in> fst ` set st" by (force dest: map_of_SomeD)
  with n have "fst ` set st - set (n # resolving) \<subset> fst ` set st - set resolving" by auto
  then have "card (fst ` set st - set (n # resolving)) < card (fst ` set st - set resolving)"
    by (intro psubset_card_mono) simp_all
  then show "((st, n # resolving, d), (st, resolving, NamedRef n))
      \<in> measures [\<lambda>(st, resolving, e). card (fst ` set st - set resolving), \<lambda>(st, resolving, e). size e]"
    by simp
qed simp_all

text \<open>
  Modelled from the spec: \<^verbatim>\<open>evaluate(expr)\<close> is not among the sources. It fails with
  \<^verbatim>\<open>UnresolvedParameterError\<close> if any referenced name is missing, whichever operand
  refers to it; otherwise it resolves the expression, and fails with
  \<^verbatim>\<open>CyclicParameterError\<close> if the resolution recurses into a name already being resolved.
\<close>

definition evaluate :: "store \<Rightarrow> expr \<Rightarrow> error + real" where
  "evaluate st e =
     (if has_missing st [] e then Inl UnresolvedParameterError else resolve st [] e)"

text \<open>
  The two failure conditions, stated on the store and the expression alone: the names an
  expression refers to, directly or through the definitions of the store; a referenced
  name that is missing; a referenced name whose own definition refers back to it.
\<close>

inductive refers :: "store \<Rightarrow> expr \<Rightarrow> string \<Rightarrow> bool" for st where
  direct: "n \<in> names e \<Longrightarrow> refers st e n"
| through: "m \<in> names e \<Longrightarrow> map_of st m = Some d \<Longrightarrow> refers st d n \<Longrightarrow> refers st e n"

definition missing_ref :: "store \<Rightarrow> expr \<Rightarrow> bool" where
  "missing_ref st e = (\<exists>n. refers st e n \<and> map_of st n = None)"

definition cyclic_ref :: "store \<Rightarrow> expr \<Rightarrow> bool" where
  "cyclic_ref st e = (\<exists>n d. refers st e n \<and> map_of st n = Some d \<and> refers st d n)"

text \<open>
  The names an expression refers to along references that stay outside a list \<open>rs\<close> of
  names: what the check for missing names still follows when \<open>rs\<close> are the names on its way.
\<close>

inductive reach :: "store \<Rightarrow> string list \<Rightarrow> expr \<Rightarrow> string \<Rightarrow> bool" for st rs where
  here: "n \<in> names e \<Longrightarrow> n \<notin> set rs \<Longrightarrow> reach st rs e n"
| via: "m \<in> names e \<Longrightarrow> m \<notin> set rs \<Longrightarrow> map_of st m = Some d \<Longrightarrow> reach st rs d n \<Longrightarrow> reach st rs e n"

text \<open>Two small stores: one resolves, one defines a name by itself.\<close>

definition example_store :: store where
  "example_store =
     set_param ''b'' (BinaryOp (*) (NamedRef ''a'') (Literal 3)) (set_param ''a'' (Literal 2) [])"

definition looping_store :: store where
  "looping_store = set_param ''a'' (NamedRef ''a'') []"

subsection \<open>An instance of the plot's names\<close>

text \<open>A small instance of the module-level names: three time samples and four fields that
  return the query time.\<close>

definition example_globals :: globals where
  "example_globals =
     \<lparr>solution_t = [0, 1, 2],
      phi_s_cn = (\<lambda>ys zs s. Inr [[s]]),
      phi_s_cp = (\<lambda>ys zs s. Inr [[s + 1]]),
      I_var = (\<lambda>ys zs s. Inr [[s + 2]]),
      T_var = (\<lambda>ys zs s. Inr [[s + 3]]),
      l_y = 1, l_z = 1,
      y_plot = linspace 0 1 21,
      z_plot = linspace 0 1 21\<rparr>"

section \<open>Properties of the numpy operations\<close>

lemma length_linspace: "length (linspace a b n) = n"
  by (simp add: linspace_def)

lemma linspace_nth:
  assumes "i < n" and "1 < n"
  shows "linspace a b n ! i = (if i = n - 1 then b else real i * ((b - a) / real (n - 1)) + a)"
  using assms by (auto simp: linspace_def nth_append)

lemma linspace_nth_affine:
  assumes "i < n" and "1 < n"
  shows "linspace a b n ! i = a + real i * ((b - a) / real (n - 1))"
proof (cases "i = n - 1")
  case True
  with assms have "real i * ((b - a) / real (n - 1)) = b - a" by simp
  with True assms show ?thesis by (simp add: linspace_nth)
next
  case False
  with assms show ?thesis by (simp add: linspace_nth)
qed

lemma linspace_bounds:
  assumes "a \<le> b" and "x \<in> set (linspace a b n)" and "1 < n"
  shows "a \<le> x \<and> x \<le> b"
proof -
  from assms(2) obtain i where i: "i < n" and x: "x = linspace a b n ! i"
    by (auto simp: in_set_conv_nth length_linspace)
  have xi: "x = a + real i * ((b - a) / real (n - 1))"
    using x i assms(3) by (simp add: linspace_nth_affine)
  have pos: "0 \<le> (b - a) / real (n - 1)" using assms by simp
  have "real i \<le> real (n - 1)" using i by simp
  then have "real i * ((b - a) / real (n - 1)) \<le> real (n - 1) * ((b - a) / real (n - 1))"
    using pos by (rule mult_right_mono)
  also have "\<dots> = b - a" using assms(3) by simp
  finally have up: "real i * ((b - a) / real (n - 1)) \<le> b - a" .
  have lo: "0 \<le> real i * ((b - a) / real (n - 1))"
    using pos by (intro mult_nonneg_nonneg) simp_all
  from xi up lo show ?thesis by auto
qed

lemma linspace_strict:
  assumes "a < b" and "1 < n"
  shows "sorted_wrt (<) (linspace a b n)"
proof -
  have h: "0 < (b - a) / real (n - 1)" using assms by simp
  have "linspace a b n ! i < linspace a b n ! j" if "i < j" and "j < n" for i j
  proof -
    from that have "real i < real j" by simp
    from this h have "real i * ((b - a) / real (n - 1)) < real j * ((b - a) / real (n - 1))"
      by (rule mult_strict_right_mono)
    with that assms show ?thesis by (simp add: linspace_nth_affine)
  qed
  then show ?thesis by (simp add: sorted_wrt_iff_nth_less length_linspace)
qed

lemma argmin_from_spec:
  "argmin_from xs i best bv = r \<Longrightarrow>
     (r = best \<and> (\<forall>x \<in> set xs. bv \<le> x)) \<or>
     (\<exists>k < length xs. r = i + k \<and> xs ! k < bv \<and> (\<forall>x \<in> set xs. xs ! k \<le> x) \<and> (\<forall>j < k. xs ! k < xs ! j))"
proof (induction xs arbitrary: i best bv)
  case Nil
  then show ?case by simp
next
  case (Cons x xs)
  show ?case
  proof (cases "x < bv")
    case True
    with Cons.prems have "argmin_from xs (Suc i) i x = r" by simp
    from Cons.IH [OF this] show ?thesis
    proof
      assume "r = i \<and> (\<forall>y \<in> set xs. x \<le> y)"
      with True have "0 < length (x # xs) \<and> r = i + 0 \<and> (x # xs) ! 0 < bv
          \<and> (\<forall>y \<in> set (x # xs). (x # xs) ! 0 \<le> y) \<and> (\<forall>j < 0. (x # xs) ! 0 < (x # xs) ! j)"
        by simp
      then show ?thesis by blast
    next
      assume "\<exists>k < length xs. r = Suc i + k \<and> xs ! k < x \<and> (\<forall>y \<in> set xs. xs ! k \<le> y) \<and> (\<forall>j < k. xs ! k < xs ! j)"
      then obtain k where k: "k < length xs" "r = Suc i + k" "xs ! k < x"
          "\<forall>y \<in> set xs. xs ! k \<le> y" "\<forall>j < k. xs ! k < xs ! j" by blast
      have "Suc k < length (x # xs) \<and> r = i + Suc k \<and> (x # xs) ! Suc k < bv
          \<and> (\<forall>y \<in> set (x # xs). (x # xs) ! Suc k \<le> y) \<and> (\<forall>j < Suc k. (x # xs) ! Suc k < (x # xs) ! j)"
        using k True by (auto simp: less_Suc_eq_0_disj)
      then show ?thesis by blast
    qed
  next
    case False
    with Cons.prems have "argmin_from xs (Suc i) best bv = r" by simp
    from Cons.IH [OF this] show ?thesis
    proof
      assume "r = best \<and> (\<forall>y \<in> set xs. bv \<le> y)"
      with False show ?thesis by auto
    next
      assume "\<exists>k < length xs. r = Suc i + k \<and> xs ! k < bv \<and> (\<forall>y \<in> set xs. xs ! k \<le> y) \<and> (\<forall>j < k. xs ! k < xs ! j)"
      then obtain k where k: "k < length xs" "r = Suc i + k" "xs ! k < bv"
          "\<forall>y \<in> set xs. xs ! k \<le> y" "\<forall>j < k. xs ! k < xs ! j" by blast
      have "Suc k < length (x # xs) \<and> r = i + Suc k \<and> (x # xs) ! Suc k < bv
          \<and> (\<forall>y \<in> set (x # xs). (x # xs) ! Suc k \<le> y) \<and> (\<forall>j < Suc k. (x # xs) ! Suc k < (x # xs) ! j)"
        using k False by (auto simp: less_Suc_eq_0_disj)
      then show ?thesis by blast
    qed
  qed
qed

lemma argmin_first_minimum:
  assumes "a \<noteq> []"
  shows "\<exists>r < length a. argmin a = Inr r \<and> (\<forall>i < length a. a ! r \<le> a ! i) \<and> (\<forall>j < r. a ! r < a ! j)"
proof -
  from assms obtain x xs where a: "a = x # xs" by (cases a) auto
  define r where "r = argmin_from xs 1 0 x"
  have am: "argmin a = Inr r" by (simp add: a argmin_def r_def)
  from argmin_from_spec [of xs 1 0 x r] r_def
  consider (head) "r = 0" "\<forall>y \<in> set xs. x \<le> y"
    | (tail) k where "k < length xs" "r = 1 + k" "xs ! k < x" "\<forall>y \<in> set xs. xs ! k \<le> y" "\<forall>j < k. xs ! k < xs ! j"
    by blast
  then show ?thesis
  proof cases
    case head
    then have "\<forall>i < length a. a ! r \<le> a ! i"
      by (auto simp: a nth_Cons split: nat.splits)
    with head am show ?thesis by (auto simp: a)
  next
    case tail
    have le: "\<forall>i < length a. a ! r \<le> a ! i"
      using tail by (auto simp: a nth_Cons split: nat.splits)
    have lt: "\<forall>j < r. a ! r < a ! j"
      using tail by (auto simp: a nth_Cons split: nat.splits)
    from tail have "r < length a" by (simp add: a)
    with am le lt show ?thesis by blast
  qed
qed

section \<open>The script's own code\<close>

text \<open>
  C9. For every requested time \<open>t\<close>, \<^verbatim>\<open>plot(t)\<close> evaluates each of the four processed
  variables on the query grids at the time \<^verbatim>\<open>solution.t[ind]\<close>, where \<open>ind\<close> is the (first)
  index that minimises \<open>\<bar>solution.t[i] - t\<bar>\<close>, and draws the transposed results: every field
  is evaluated at that sampled time of the solution, the nearest one to \<open>t\<close>, and at no
  other time. The time axis has at least one sample (\<^verbatim>\<open>argmin\<close> of an empty array raises).
\<close>

theorem plot_nearest_sample:
  assumes "solution_t g \<noteq> []"
  shows "\<exists>ind < length (solution_t g).
           argmin (map (\<lambda>s. \<bar>s - t\<bar>) (solution_t g)) = Inr ind
         \<and> (\<forall>i < length (solution_t g). \<bar>solution_t g ! ind - t\<bar> \<le> \<bar>solution_t g ! i - t\<bar>)
         \<and> (\<forall>j < ind. \<bar>solution_t g ! ind - t\<bar> < \<bar>solution_t g ! j - t\<bar>)
         \<and> solution_t g ! ind \<in> set (solution_t g)
         \<and> plot g t =
             (case phi_s_cn g (y_plot g) (z_plot g) (solution_t g ! ind) of
                Inl e \<Rightarrow> Inl e
              | Inr a \<Rightarrow>
                  (case phi_s_cp g (y_plot g) (z_plot g) (solution_t g ! ind) of
                     Inl e \<Rightarrow> Inl e
                   | Inr b \<Rightarrow>
                       (case I_var g (y_plot g) (z_plot g) (solution_t g ! ind) of
                          Inl e \<Rightarrow> Inl e
                        | Inr c \<Rightarrow>
                            (case T_var g (y_plot g) (z_plot g) (solution_t g ! ind) of
                               Inl e \<Rightarrow> Inl e
                             | Inr d \<Rightarrow> Inr [transpose a, transpose b, transpose c, transpose d]))))"
proof -
  let ?d = "map (\<lambda>s. \<bar>s - t\<bar>) (solution_t g)"
  from assms have "?d \<noteq> []" by simp
  from argmin_first_minimum [OF this]
  obtain r where r: "r < length ?d" "argmin ?d = Inr r"
      "\<forall>i < length ?d. ?d ! r \<le> ?d ! i" "\<forall>j < r. ?d ! r < ?d ! j"
    by blast
  from r(1) have rl: "r < length (solution_t g)" by simp
  have le: "\<forall>i < length (solution_t g). \<bar>solution_t g ! r - t\<bar> \<le> \<bar>solution_t g ! i - t\<bar>"
    using r(3) rl by simp
  have lt: "\<forall>j < r. \<bar>solution_t g ! r - t\<bar> < \<bar>solution_t g ! j - t\<bar>"
    using r(4) rl by simp
  have mem: "solution_t g ! r \<in> set (solution_t g)"
    using rl by simp
  have pl: "plot g t =
      (case phi_s_cn g (y_plot g) (z_plot g) (solution_t g ! r) of
         Inl e \<Rightarrow> Inl e
       | Inr a \<Rightarrow>
           (case phi_s_cp g (y_plot g) (z_plot g) (solution_t g ! r) of
              Inl e \<Rightarrow> Inl e
            | Inr b \<Rightarrow>
                (case I_var g (y_plot g) (z_plot g) (solution_t g ! r) of
                   Inl e \<Rightarrow> Inl e
                 | Inr c \<Rightarrow>
                     (case T_var g (y_plot g) (z_plot g) (solution_t g ! r) of
                        Inl e \<Rightarrow> Inl e
                      | Inr d \<Rightarrow> Inr [transpose a, transpose b, transpose c, transpose d]))))"
    using r(2) rl by (simp add: plot_def getitem_def snapshot_def)
  from rl r(2) le lt mem pl show ?thesis by blast
qed

text \<open>
  With the samples \<open>[0, 1, 2]\<close> and the request \<open>4 / 5\<close> the nearest sample is \<open>1\<close>, and the
  four fields of the instance, which return the query time plus 0, 1, 2 and 3, are drawn
  with the values 1, 2, 3 and 4.
\<close>

theorem plot_nearest_sample_witness:
  "solution_t example_globals \<noteq> []
   \<and> argmin (map (\<lambda>s. \<bar>s - 4 / 5\<bar>) (solution_t example_globals)) = Inr 1
   \<and> solution_t example_globals ! 1 = 1
   \<and> plot example_globals (4 / 5) = Inr [[[1]], [[2]], [[3]], [[4]]]"
proof -
  have ne: "solution_t example_globals \<noteq> []" by (simp add: example_globals_def)
  have am: "argmin (map (\<lambda>s. \<bar>s - 4 / 5\<bar>) (solution_t example_globals)) = Inr 1"
    by (simp add: example_globals_def argmin_def)
  have s1: "solution_t example_globals ! 1 = 1" by (simp add: example_globals_def)
  from plot_nearest_sample [OF ne, of "4 / 5"] obtain ind where
    i: "argmin (map (\<lambda>s. \<bar>s - 4 / 5\<bar>) (solution_t example_globals)) = Inr ind"
    and p: "plot example_globals (4 / 5) =
      (case phi_s_cn example_globals (y_plot example_globals) (z_plot example_globals)
              (solution_t example_globals ! ind) of
         Inl e \<Rightarrow> Inl e
       | Inr a \<Rightarrow>
           (case phi_s_cp example_globals (y_plot example_globals) (z_plot example_globals)
                   (solution_t example_globals ! ind) of
              Inl e \<Rightarrow> Inl e
            | Inr b \<Rightarrow>
                (case I_var example_globals (y_plot example_globals) (z_plot example_globals)
                        (solution_t example_globals ! ind) of
                   Inl e \<Rightarrow> Inl e
                 | Inr c \<Rightarrow>
                     (case T_var example_globals (y_plot example_globals) (z_plot example_globals)
                             (solution_t example_globals ! ind) of
                        Inl e \<Rightarrow> Inl e
                      | Inr d \<Rightarrow> Inr [transpose a, transpose b, transpose c, transpose d]))))"
    by blast
  from i am have ind: "ind = 1" by simp
  have "plot example_globals (4 / 5) = Inr [[[1]], [[2]], [[3]], [[4]]]"
    unfolding p ind s1 by (simp add: example_globals_def)
  with ne am s1 show ?thesis by simp
qed

text \<open>
  C10. The script's query grids are \<^verbatim>\<open>linspace(0, l_y, 21)\<close> and \<^verbatim>\<open>linspace(0, l_z, 21)\<close>
  with \<open>l_y\<close> and \<open>l_z\<close> the last node coordinates of the processed variable. When the node
  arrays are not empty and these last coordinates are not negative, the grids are built,
  each has 21 points, and every grid point lies in the closed extent
  \<open>[0, l_y] \<times> [0, l_z]\<close>: no query of the script is strictly outside it.
\<close>

theorem query_grids_inside_extent:
  assumes "y_sol \<noteq> []" and "z_sol \<noteq> []" and "0 \<le> last y_sol" and "0 \<le> last z_sol"
  shows "\<exists>ys zs. query_grids y_sol z_sol = Inr (last y_sol, last z_sol, ys, zs)
           \<and> length ys = 21 \<and> length zs = 21
           \<and> (\<forall>y \<in> set ys. \<forall>z \<in> set zs. 0 \<le> y \<and> y \<le> last y_sol \<and> 0 \<le> z \<and> z \<le> last z_sol)"
proof -
  let ?ys = "linspace 0 (last y_sol) 21" and ?zs = "linspace 0 (last z_sol) 21"
  have q: "query_grids y_sol z_sol = Inr (last y_sol, last z_sol, ?ys, ?zs)"
    using assms(1,2) by (simp add: query_grids_def getitem_last_def)
  have bndy: "\<forall>y \<in> set ?ys. 0 \<le> y \<and> y \<le> last y_sol"
    using linspace_bounds [OF assms(3), of _ 21] by simp
  have bndz: "\<forall>z \<in> set ?zs. 0 \<le> z \<and> z \<le> last z_sol"
    using linspace_bounds [OF assms(4), of _ 21] by simp
  from q bndy bndz show ?thesis by (simp add: length_linspace)
qed

theorem query_grids_inside_extent_witness:
  "[0, 1 / 2, 1 :: real] \<noteq> [] \<and> [0, 2 :: real] \<noteq> []
   \<and> 0 \<le> last [0, 1 / 2, 1 :: real] \<and> 0 \<le> last [0, 2 :: real]
   \<and> (\<exists>ys zs. query_grids [0, 1 / 2, 1] [0, 2] = Inr (last [0, 1 / 2, 1], last [0, 2], ys, zs)
           \<and> length ys = 21 \<and> length zs = 21
           \<and> (\<forall>y \<in> set ys. \<forall>z \<in> set zs.
                 0 \<le> y \<and> y \<le> last [0, 1 / 2, 1] \<and> 0 \<le> z \<and> z \<le> last [0, 2]))"
proof -
  have h: "[0, 1 / 2, 1 :: real] \<noteq> []" "[0, 2 :: real] \<noteq> []"
      "0 \<le> last [0, 1 / 2, 1 :: real]" "0 \<le> last [0, 2 :: real]"
    by simp_all
  from query_grids_inside_extent [OF h] h show ?thesis by blast
qed

section \<open>The solve\<close>

lemma integrate_times:
  "integrate step tc yc ts = Inr (ts', ys') \<Longrightarrow> ts' = ts \<and> length ys' = length ts"
  by (induction ts arbitrary: tc yc ts' ys') (auto split: option.splits sum.splits)

lemma integrate_converges:
  "(\<And>a b y. step a b y \<noteq> None) \<Longrightarrow> \<exists>ys'. integrate step tc yc ts = Inr (ts, ys')"
proof (induction ts arbitrary: tc yc)
  case Nil
  then show ?case by simp
next
  case (Cons tn ts)
  from Cons.prems [of tc tn yc] obtain yn where yn: "step tc tn yc = Some yn" by auto
  from Cons.IH [OF Cons.prems, of tn yn] obtain ys' where "integrate step tn yn ts = Inr (ts, ys')" by blast
  with yn show ?case by simp
qed

lemma solve_times:
  assumes "solve s m t_eval = Inr sol"
  shows "sol_t sol = t_eval \<and> length (sol_y sol) = length t_eval"
proof (cases t_eval)
  case Nil
  with assms show ?thesis by (auto simp: solve_def split: if_splits)
next
  case (Cons t0 ts)
  with assms obtain ts' ys' where i: "integrate (implicit_step m s) t0 (initial_state m) ts = Inr (ts', ys')"
      and sol: "sol = \<lparr>sol_t = t0 # ts', sol_y = initial_state m # ys'\<rparr>"
    by (auto simp: solve_def split: if_splits sum.splits)
  from integrate_times [OF i] sol Cons show ?thesis by simp
qed

lemma script_solve_returns:
  assumes "tau \<noteq> 0" and "\<And>a b y. implicit_step m script_solver a b y \<noteq> None"
  shows "\<exists>sol. script_solve m tau = Inr sol"
proof -
  let ?te = "linspace 0 (3600 / tau) 120"
  have "length ?te = 120" by (simp add: length_linspace)
  then obtain t0 ts where te: "?te = t0 # ts" by (cases ?te) auto
  from integrate_converges [of "implicit_step m script_solver", OF assms(2)]
  obtain ys' where "integrate (implicit_step m script_solver) t0 (initial_state m) ts = Inr (ts, ys')"
    by blast
  with te assms(1) show ?thesis
    by (simp add: script_solve_def solve_def Let_def script_solver_def)
qed

text \<open>
  C1. The script solves over \<^verbatim>\<open>t_eval = linspace(0, t_end, 120)\<close> with
  \<^verbatim>\<open>t_end = 3600 / tau\<close>. For a positive discharge timescale, the time axis of the returned
  solution is exactly this grid: it has 120 samples, starts at 0 and is strictly
  increasing, with one state vector for each sample.
\<close>

theorem script_solve_time_axis:
  assumes "0 < tau" and "script_solve m tau = Inr sol"
  shows "sol_t sol = linspace 0 (3600 / tau) 120
       \<and> length (sol_t sol) = 120
       \<and> sol_t sol ! 0 = 0
       \<and> sorted_wrt (<) (sol_t sol)
       \<and> length (sol_y sol) = length (sol_t sol)"
proof -
  let ?te = "linspace 0 (3600 / tau) 120"
  from assms have "solve script_solver m ?te = Inr sol"
    by (simp add: script_solve_def Let_def)
  from solve_times [OF this] have t: "sol_t sol = ?te" and y: "length (sol_y sol) = length ?te" by simp_all
  have "0 < 3600 / tau" using assms(1) by simp
  then have "sorted_wrt (<) ?te" by (rule linspace_strict) simp
  moreover have "?te ! 0 = 0" by (simp add: linspace_nth_affine)
  ultimately show ?thesis using t y by (simp add: length_linspace)
qed

theorem script_solve_time_axis_witness:
  "(0::real) < 1 \<and> (\<exists>sol. script_solve steady_model 1 = Inr sol
       \<and> sol_t sol = linspace 0 (3600 / 1) 120
       \<and> length (sol_t sol) = 120
       \<and> sol_t sol ! 0 = 0
       \<and> sorted_wrt (<) (sol_t sol)
       \<and> length (sol_y sol) = length (sol_t sol))"
proof -
  have "\<exists>sol. script_solve steady_model 1 = Inr sol"
    by (rule script_solve_returns) (simp_all add: steady_model_def)
  then obtain sol where s: "script_solve steady_model 1 = Inr sol" ..
  have p: "(0::real) < 1" by simp
  from script_solve_time_axis [OF p s] s have "\<exists>sol. script_solve steady_model 1 = Inr sol
       \<and> sol_t sol = linspace 0 (3600 / 1) 120
       \<and> length (sol_t sol) = 120
       \<and> sol_t sol ! 0 = 0
       \<and> sorted_wrt (<) (sol_t sol)
       \<and> length (sol_y sol) = length (sol_t sol)" by blast
  with p show ?thesis by (rule conjI)
qed

section \<open>The parameter store\<close>

lemma refers_mono:
  assumes "refers st e n" and "names e \<subseteq> names e'"
  shows "refers st e' n"
  using assms by (cases rule: refers.cases) (auto intro: refers.intros)

lemma refers_NamedRef:
  assumes "map_of st m = Some d" and "refers st d n"
  shows "refers st (NamedRef m) n"
  using assms by (auto intro: refers.through [of m])

lemma missing_ref_mono: "missing_ref st e \<Longrightarrow> names e \<subseteq> names e' \<Longrightarrow> missing_ref st e'"
  unfolding missing_ref_def by (blast intro: refers_mono)

lemma cyclic_ref_mono: "cyclic_ref st e \<Longrightarrow> names e \<subseteq> names e' \<Longrightarrow> cyclic_ref st e'"
  unfolding cyclic_ref_def by (blast intro: refers_mono)

lemma resolve_errors:
  "resolve st rs e = Inl err \<Longrightarrow> err = UnresolvedParameterError \<or> err = CyclicParameterError"
  by (induction st rs e rule: resolve.induct) (auto split: if_splits option.splits sum.splits)

lemma resolve_unresolved_missing:
  "resolve st rs e = Inl UnresolvedParameterError \<Longrightarrow> missing_ref st e"
proof (induction st rs e rule: resolve.induct)
  case (1 st rs v)
  then show ?case by simp
next
  case (2 st rs n)
  show ?case
  proof (cases "map_of st n")
    case None
    have "refers st (NamedRef n) n" by (simp add: refers.direct)
    with None show ?thesis unfolding missing_ref_def by blast
  next
    case (Some d)
    with "2.prems" have nin: "n \<notin> set rs" and ev: "resolve st (n # rs) d = Inl UnresolvedParameterError"
      by (auto split: if_splits)
    from "2.IH" [OF nin Some ev] obtain k where "refers st d k" "map_of st k = None"
      unfolding missing_ref_def by blast
    with Some show ?thesis unfolding missing_ref_def by (blast intro: refers_NamedRef)
  qed
next
  case (3 st rs f l r)
  show ?case
  proof (cases "resolve st rs l")
    case (Inl err)
    with "3.prems" have "resolve st rs l = Inl UnresolvedParameterError" by simp
    from "3.IH"(1) [OF this] show ?thesis by (rule missing_ref_mono) simp
  next
    case (Inr a)
    with "3.prems" have "resolve st rs r = Inl UnresolvedParameterError"
      by (auto split: sum.splits)
    from "3.IH"(2) [OF Inr this] show ?thesis by (rule missing_ref_mono) simp
  qed
qed

lemma resolve_cyclic_reaches:
  "resolve st rs e = Inl CyclicParameterError \<Longrightarrow> (\<exists>n \<in> set rs. refers st e n) \<or> cyclic_ref st e"
proof (induction st rs e rule: resolve.induct)
  case (1 st rs v)
  then show ?case by simp
next
  case (2 st rs n)
  show ?case
  proof (cases "n \<in> set rs")
    case True
    have "refers st (NamedRef n) n" by (simp add: refers.direct)
    with True show ?thesis by blast
  next
    case False
    with "2.prems" obtain d where d: "map_of st n = Some d"
        and ev: "resolve st (n # rs) d = Inl CyclicParameterError"
      by (auto split: option.splits)
    from "2.IH" [OF False d ev]
    consider (top) "refers st d n" | (below) k where "k \<in> set rs" "refers st d k" | (cyc) "cyclic_ref st d"
      by auto
    then show ?thesis
    proof cases
      case top
      have "refers st (NamedRef n) n" by (simp add: refers.direct)
      with d top show ?thesis unfolding cyclic_ref_def by blast
    next
      case below
      with d show ?thesis by (blast intro: refers_NamedRef)
    next
      case cyc
      then obtain k dk where "refers st d k" "map_of st k = Some dk" "refers st dk k"
        unfolding cyclic_ref_def by blast
      with d show ?thesis unfolding cyclic_ref_def by (blast intro: refers_NamedRef)
    qed
  qed
next
  case (3 st rs f l r)
  show ?case
  proof (cases "resolve st rs l")
    case (Inl err)
    with "3.prems" have "resolve st rs l = Inl CyclicParameterError" by simp
    from "3.IH"(1) [OF this] have "(\<exists>n \<in> set rs. refers st l n) \<or> cyclic_ref st l" .
    moreover have "names l \<subseteq> names (BinaryOp f l r)" by simp
    ultimately show ?thesis by (blast intro: refers_mono cyclic_ref_mono)
  next
    case (Inr a)
    with "3.prems" have "resolve st rs r = Inl CyclicParameterError"
      by (auto split: sum.splits)
    from "3.IH"(2) [OF Inr this] have "(\<exists>n \<in> set rs. refers st r n) \<or> cyclic_ref st r" .
    moreover have "names r \<subseteq> names (BinaryOp f l r)" by simp
    ultimately show ?thesis by (blast intro: refers_mono cyclic_ref_mono)
  qed
qed

lemma resolve_value_direct:
  "resolve st rs e = Inr v \<Longrightarrow> m \<in> names e \<Longrightarrow>
     m \<notin> set rs \<and> (\<exists>d w. map_of st m = Some d \<and> resolve st (m # rs) d = Inr w)"
  by (induction st rs e arbitrary: v rule: resolve.induct)
     (auto split: if_splits option.splits sum.splits)

lemma resolve_value_refers:
  "refers st e n \<Longrightarrow> resolve st rs e = Inr v \<Longrightarrow>
     \<exists>rs' d w. set rs \<subseteq> set rs' \<and> n \<notin> set rs' \<and> map_of st n = Some d \<and> resolve st (n # rs') d = Inr w"
proof (induction arbitrary: rs v rule: refers.induct)
  case (direct n e)
  from resolve_value_direct [OF direct(2) direct(1)] show ?case by blast
next
  case (through m e d n)
  from resolve_value_direct [OF through.prems through.hyps(1)] through.hyps(2)
  obtain w where "resolve st (m # rs) d = Inr w" by auto
  from through.IH [OF this] show ?case by auto
qed

lemma resolve_value_closed:
  assumes "resolve st rs e = Inr v"
  shows "\<not> missing_ref st e" and "\<not> cyclic_ref st e"
proof -
  show "\<not> missing_ref st e"
  proof
    assume "missing_ref st e"
    then obtain n where "refers st e n" "map_of st n = None" unfolding missing_ref_def by blast
    with resolve_value_refers [OF this(1) assms] show False by auto
  qed
  show "\<not> cyclic_ref st e"
  proof
    assume "cyclic_ref st e"
    then obtain n d where n: "refers st e n" "map_of st n = Some d" "refers st d n"
      unfolding cyclic_ref_def by blast
    from resolve_value_refers [OF n(1) assms] n(2)
    obtain rs' w where "resolve st (n # rs') d = Inr w" by auto
    from resolve_value_refers [OF n(3) this] show False by auto
  qed
qed


lemma refers_reach: "refers st e n \<Longrightarrow> reach st [] e n"
  by (induction rule: refers.induct) (auto intro: reach.intros)

lemma reach_refers: "reach st rs e n \<Longrightarrow> refers st e n"
  by (induction rule: reach.induct) (auto intro: refers.intros)

lemma reach_push:
  "reach st rs e n \<Longrightarrow>
     n = m \<or> reach st (m # rs) e n \<or> (\<exists>d. map_of st m = Some d \<and> reach st (m # rs) d n)"
proof (induction rule: reach.induct)
  case (here n e)
  then show ?case by (cases "n = m") (auto intro: reach.here)
next
  case (via k e dk n)
  from via.IH consider "n = m" | "reach st (m # rs) dk n"
    | d where "map_of st m = Some d" "reach st (m # rs) d n" by blast
  then show ?case
  proof cases
    case 1
    then show ?thesis by simp
  next
    case 2
    show ?thesis
    proof (cases "k = m")
      case True
      with via.hyps 2 show ?thesis by auto
    next
      case False
      with via.hyps 2 have "reach st (m # rs) e n" by (auto intro: reach.via [of k])
      then show ?thesis by simp
    qed
  next
    case 3
    then show ?thesis by blast
  qed
qed

lemma reach_BinaryOp:
  "reach st rs (BinaryOp f l r) n \<Longrightarrow> reach st rs l n \<or> reach st rs r n"
  by (cases rule: reach.cases) (auto intro: reach.intros)

lemma has_missing_complete:
  "reach st rs e n \<Longrightarrow> map_of st n = None \<Longrightarrow> has_missing st rs e"
proof (induction st rs e rule: has_missing.induct)
  case (1 st rs v)
  then show ?case by (auto elim: reach.cases)
next
  case (2 st rs k)
  from "2.prems"(1) show ?case
  proof (cases rule: reach.cases)
    case here
    with "2.prems"(2) show ?thesis by simp
  next
    case (via m d)
    then have k: "m = k" "k \<notin> set rs" "map_of st k = Some d" "reach st rs d n" by simp_all
    from reach_push [OF k(4), of k] k(3) "2.prems"(2) have "reach st (k # rs) d n" by auto
    from "2.IH" [OF k(2) k(3) this "2.prems"(2)] k show ?thesis by simp
  qed
next
  case (3 st rs f l r)
  from reach_BinaryOp [OF "3.prems"(1)] show ?case
  proof
    assume "reach st rs l n"
    from "3.IH"(1) [OF this "3.prems"(2)] show ?thesis by simp
  next
    assume r: "reach st rs r n"
    show ?thesis
    proof (cases "has_missing st rs l")
      case True
      then show ?thesis by simp
    next
      case False
      from "3.IH"(2) [OF r "3.prems"(2)] show ?thesis by simp
    qed
  qed
qed

lemma has_missing_sound: "has_missing st rs e \<Longrightarrow> missing_ref st e"
proof (induction st rs e rule: has_missing.induct)
  case (1 st rs v)
  then show ?case by simp
next
  case (2 st rs n)
  show ?case
  proof (cases "map_of st n")
    case None
    have "refers st (NamedRef n) n" by (simp add: refers.direct)
    with None show ?thesis unfolding missing_ref_def by blast
  next
    case (Some d)
    with "2.prems" have nin: "n \<notin> set rs" and hm: "has_missing st (n # rs) d"
      by (auto split: if_splits)
    from "2.IH" [OF nin Some hm] obtain k where "refers st d k" "map_of st k = None"
      unfolding missing_ref_def by blast
    with Some show ?thesis unfolding missing_ref_def by (blast intro: refers_NamedRef)
  qed
next
  case (3 st rs f l r)
  show ?case
  proof (cases "has_missing st rs l")
    case True
    from "3.IH"(1) [OF True] show ?thesis by (rule missing_ref_mono) simp
  next
    case False
    with "3.prems" have "has_missing st rs r" by simp
    from "3.IH"(2) [OF this] show ?thesis by (rule missing_ref_mono) simp
  qed
qed

lemma has_missing_iff: "has_missing st [] e \<longleftrightarrow> missing_ref st e"
proof
  assume "has_missing st [] e"
  then show "missing_ref st e" by (rule has_missing_sound)
next
  assume "missing_ref st e"
  then obtain n where "refers st e n" "map_of st n = None" unfolding missing_ref_def by blast
  then show "has_missing st [] e" by (blast intro: has_missing_complete refers_reach)
qed

lemma resolve_outcomes:
  "((\<exists>v. resolve st [] e = Inr v) \<longleftrightarrow> \<not> missing_ref st e \<and> \<not> cyclic_ref st e)"
  "resolve st [] e = Inl UnresolvedParameterError \<Longrightarrow> missing_ref st e"
  "resolve st [] e = Inl CyclicParameterError \<Longrightarrow> cyclic_ref st e"
proof -
  show u: "resolve st [] e = Inl UnresolvedParameterError \<Longrightarrow> missing_ref st e"
    by (rule resolve_unresolved_missing)
  show c: "resolve st [] e = Inl CyclicParameterError \<Longrightarrow> cyclic_ref st e"
    using resolve_cyclic_reaches [of st "[]" e] by simp
  have v: "\<And>v. resolve st [] e = Inr v \<Longrightarrow> \<not> missing_ref st e \<and> \<not> cyclic_ref st e"
    using resolve_value_closed by blast
  have tri: "(\<exists>v. resolve st [] e = Inr v) \<or> resolve st [] e = Inl UnresolvedParameterError
      \<or> resolve st [] e = Inl CyclicParameterError"
    using resolve_errors [of st "[]" e] by (cases "resolve st [] e") auto
  from u c v tri show "((\<exists>v. resolve st [] e = Inr v) \<longleftrightarrow> \<not> missing_ref st e \<and> \<not> cyclic_ref st e)"
    by blast
qed

text \<open>
  C7. Evaluation fails with \<^verbatim>\<open>UnresolvedParameterError\<close> exactly when some referenced name
  is missing from the store. It fails with \<^verbatim>\<open>CyclicParameterError\<close> exactly when the
  resolution, which starts once every referenced name was found, recurses into a name that
  is already being resolved; this happens exactly when a referenced name refers back to
  itself. With neither condition it returns a number.
\<close>

theorem evaluate_outcomes:
  "(evaluate st e = Inl UnresolvedParameterError) = missing_ref st e
   \<and> (evaluate st e = Inl CyclicParameterError) = (\<not> missing_ref st e \<and> resolve st [] e = Inl CyclicParameterError)
   \<and> (evaluate st e = Inl CyclicParameterError) = (\<not> missing_ref st e \<and> cyclic_ref st e)
   \<and> (\<exists>v. evaluate st e = Inr v) = (\<not> missing_ref st e \<and> \<not> cyclic_ref st e)"
proof (cases "missing_ref st e")
  case True
  then have "evaluate st e = Inl UnresolvedParameterError"
    by (simp add: evaluate_def has_missing_iff)
  with True show ?thesis by simp
next
  case False
  then have ev: "evaluate st e = resolve st [] e"
    by (simp add: evaluate_def has_missing_iff)
  have nu: "resolve st [] e \<noteq> Inl UnresolvedParameterError"
    using resolve_outcomes(2) [of st e] False by blast
  have v: "(\<exists>v. resolve st [] e = Inr v) = (\<not> cyclic_ref st e)"
    using resolve_outcomes(1) [of st e] False by simp
  have c: "(resolve st [] e = Inl CyclicParameterError) = cyclic_ref st e"
  proof
    assume "resolve st [] e = Inl CyclicParameterError"
    then show "cyclic_ref st e" by (rule resolve_outcomes(3))
  next
    assume cy: "cyclic_ref st e"
    with v have "\<not> (\<exists>v. resolve st [] e = Inr v)" by simp
    with nu resolve_errors [of st "[]" e] show "resolve st [] e = Inl CyclicParameterError"
      by (cases "resolve st [] e") auto
  qed
  from False ev nu v c show ?thesis by simp
qed

text \<open>
  The three outcomes on small stores, and an expression that refers both to a name defined
  by itself and to a missing name: the missing name is reported.
\<close>

theorem evaluate_outcomes_witness:
  "evaluate example_store (BinaryOp (+) (NamedRef ''a'') (NamedRef ''b'')) = Inr 8
   \<and> \<not> missing_ref example_store (BinaryOp (+) (NamedRef ''a'') (NamedRef ''b''))
   \<and> \<not> cyclic_ref example_store (BinaryOp (+) (NamedRef ''a'') (NamedRef ''b''))
   \<and> evaluate example_store (NamedRef ''c'') = Inl UnresolvedParameterError
   \<and> missing_ref example_store (NamedRef ''c'')
   \<and> evaluate looping_store (NamedRef ''a'') = Inl CyclicParameterError
   \<and> cyclic_ref looping_store (NamedRef ''a'')
   \<and> evaluate looping_store (BinaryOp (+) (NamedRef ''a'') (NamedRef ''b'')) = Inl UnresolvedParameterError
   \<and> missing_ref looping_store (BinaryOp (+) (NamedRef ''a'') (NamedRef ''b''))"
proof -
  have v: "evaluate example_store (BinaryOp (+) (NamedRef ''a'') (NamedRef ''b'')) = Inr 8"
    by (simp add: evaluate_def example_store_def set_param_def)
  have u: "evaluate example_store (NamedRef ''c'') = Inl UnresolvedParameterError"
    by (simp add: evaluate_def example_store_def set_param_def)
  have c: "evaluate looping_store (NamedRef ''a'') = Inl CyclicParameterError"
    by (simp add: evaluate_def looping_store_def set_param_def)
  have b: "evaluate looping_store (BinaryOp (+) (NamedRef ''a'') (NamedRef ''b'')) = Inl UnresolvedParameterError"
    by (simp add: evaluate_def looping_store_def set_param_def)
  from v evaluate_outcomes [of example_store "BinaryOp (+) (NamedRef ''a'') (NamedRef ''b'')"]
  have "\<not> missing_ref example_store (BinaryOp (+) (NamedRef ''a'') (NamedRef ''b''))
      \<and> \<not> cyclic_ref example_store (BinaryOp (+) (NamedRef ''a'') (NamedRef ''b''))"
    by blast
  moreover from u evaluate_outcomes [of example_store "NamedRef ''c''"]
  have "missing_ref example_store (NamedRef ''c'')" by blast
  moreover from c evaluate_outcomes [of looping_store "NamedRef ''a''"]
  have "cyclic_ref looping_store (NamedRef ''a'')" by blast
  moreover from b evaluate_outcomes [of looping_store "BinaryOp (+) (NamedRef ''a'') (NamedRef ''b'')"]
  have "missing_ref looping_store (BinaryOp (+) (NamedRef ''a'') (NamedRef ''b''))" by blast
  ultimately show ?thesis using v u c b by blast
qed

end
